theory Spec2Isabelle
  imports Complex_Main
begin

section \<open>RSI readings and the signal decision of the main loop\<close>

text \<open>
  A reading returned by \<open>get_rsi\<close> is a Python float.  Ordering comparisons of a
  finite float with the integer thresholds are exact, so a finite reading is modelled by
  the real number it denotes; the one other value that matters is NaN, for which every
  ordering comparison is false.
\<close>

datatype rsi_value = NaN | Val real

fun lt :: "rsi_value \<Rightarrow> real \<Rightarrow> bool" where
  "lt NaN t = False"
| "lt (Val x) t = (x < t)"

fun gt :: "rsi_value \<Rightarrow> real \<Rightarrow> bool" where
  "gt NaN t = False"
| "gt (Val x) t = (x > t)"

definition entry :: real where
  "entry = 38"

definition exit :: real where
  "exit = 78"

text \<open>
  The nested conditional of the main loop (source lines 248 to 254): given the
  truth value of \<open>account["is_buying"]\<close>, the new reading \<open>rsi\<close> and the previous
  reading \<open>old_rsi\<close>, the side with which \<open>do_trade\<close> is called, if it is called.
\<close>

definition signal :: "bool \<Rightarrow> rsi_value \<Rightarrow> rsi_value \<Rightarrow> string option" where
  "signal is_buying rsi old_rsi =
     (if is_buying then
        (if lt rsi entry \<and> gt old_rsi entry then Some ''buy'' else None)
      else
        (if gt rsi exit \<and> lt old_rsi exit then Some ''sell'' else None))"


section \<open>JSON values, \<open>json.dumps\<close> and \<open>json.loads\<close>\<close>

text \<open>
  The account is whatever \<open>json.load\<close> returns, and it is written back with
  \<open>json.dumps\<close>.  The model covers null, booleans, strings, arrays and objects; a
  Python dict is an association list in insertion order.  Characters are the code points
  0 to 255.  JSON numbers are floats or unbounded integers in Python and are outside the
  model: the reader reports a text that contains one as undecodable.
\<close>

datatype json = JNull | JBool bool | JStr string | JArr "json list" | JObj "(string \<times> json) list"

text \<open>Truth value of a Python object in a condition.\<close>

fun truthy :: "json \<Rightarrow> bool" where
  "truthy JNull = False"
| "truthy (JBool b) = b"
| "truthy (JStr s) = (s \<noteq> [])"
| "truthy (JArr xs) = (xs \<noteq> [])"
| "truthy (JObj kvs) = (kvs \<noteq> [])"

text \<open>\<open>d[k] = v\<close> on a dict: an existing key keeps its position, a new key is appended.\<close>

fun dict_set :: "(string \<times> json) list \<Rightarrow> string \<Rightarrow> json \<Rightarrow> (string \<times> json) list" where
  "dict_set [] k v = [(k, v)]"
| "dict_set ((k', v') # d) k v = (if k' = k then (k', v) # d else (k', v') # dict_set d k v)"

text \<open>\<open>dict(pairs)\<close>: later pairs overwrite earlier ones.\<close>

definition dict_of :: "(string \<times> json) list \<Rightarrow> (string \<times> json) list" where
  "dict_of pairs = foldl (\<lambda>d (k, v). dict_set d k v) [] pairs"

subsection \<open>Writing\<close>

definition hex_digit :: "nat \<Rightarrow> char" where
  "hex_digit n = (if n < 10 then char_of (48 + n) else char_of (87 + n))"

text \<open>
  The encoder with \<open>ensure_ascii\<close>: the quote and the backslash are escaped, the five
  short escapes are used, every other character outside the printable ASCII range is
  written as a four-digit lower-case hexadecimal escape.
\<close>

definition escape_char :: "char \<Rightarrow> string" where
  "escape_char c =
     (if c = CHR 0x22 then [CHR 0x5C, CHR 0x22]
      else if c = CHR 0x5C then [CHR 0x5C, CHR 0x5C]
      else if c = CHR 0x0A then [CHR 0x5C, CHR ''n'']
      else if c = CHR 0x0D then [CHR 0x5C, CHR ''r'']
      else if c = CHR 0x09 then [CHR 0x5C, CHR ''t'']
      else if c = CHR 0x08 then [CHR 0x5C, CHR ''b'']
      else if c = CHR 0x0C then [CHR 0x5C, CHR ''f'']
      else if 32 \<le> (of_char c :: nat) \<and> (of_char c :: nat) \<le> 126 then [c]
      else [CHR 0x5C, CHR ''u'', CHR ''0'', CHR ''0'',
            hex_digit ((of_char c :: nat) div 16), hex_digit ((of_char c :: nat) mod 16)])"

definition encode_string :: "string \<Rightarrow> string" where
  "encode_string s = CHR 0x22 # concat (map escape_char s) @ [CHR 0x22]"

text \<open>The default separators of \<open>json.dumps\<close> are \<open>", "\<close> and \<open>": "\<close>.\<close>

fun json_dumps :: "json \<Rightarrow> string"
  and dumps_items :: "json list \<Rightarrow> string"
  and dumps_members :: "(string \<times> json) list \<Rightarrow> string" where
  "json_dumps JNull = ''null''"
| "json_dumps (JBool b) = (if b then ''true'' else ''false'')"
| "json_dumps (JStr s) = encode_string s"
| "json_dumps (JArr xs) = ''['' @ dumps_items xs @ '']''"
| "json_dumps (JObj kvs) = ''{'' @ dumps_members kvs @ ''}''"
| "dumps_items [] = []"
| "dumps_items [x] = json_dumps x"
| "dumps_items (x # y # ys) = json_dumps x @ '', '' @ dumps_items (y # ys)"
| "dumps_members [] = []"
| "dumps_members [(k, v)] = encode_string k @ '': '' @ json_dumps v"
| "dumps_members ((k, v) # m # ms) =
     encode_string k @ '': '' @ json_dumps v @ '', '' @ dumps_members (m # ms)"

subsection \<open>Reading\<close>

datatype token = LBrace | RBrace | LBrack | RBrack | Comma | Colon
  | TNull | TTrue | TFalse | TStr string

definition hex_val :: "char \<Rightarrow> nat option" where
  "hex_val c =
     (let n = (of_char c :: nat) in
      if 48 \<le> n \<and> n \<le> 57 then Some (n - 48)
      else if 97 \<le> n \<and> n \<le> 102 then Some (n - 87)
      else if 65 \<le> n \<and> n \<le> 70 then Some (n - 55)
      else None)"

definition hex4 :: "char \<Rightarrow> char \<Rightarrow> char \<Rightarrow> char \<Rightarrow> nat option" where
  "hex4 a b c d =
     (case (hex_val a, hex_val b, hex_val c, hex_val d) of
        (Some x, Some y, Some z, Some u) \<Rightarrow> Some (((x * 16 + y) * 16 + z) * 16 + u)
      | _ \<Rightarrow> None)"

text \<open>The character after a backslash, other than \<open>u\<close>.\<close>

definition unescape :: "char \<Rightarrow> char option" where
  "unescape e =
     (if e = CHR 0x22 then Some (CHR 0x22)
      else if e = CHR 0x5C then Some (CHR 0x5C)
      else if e = CHR ''/'' then Some (CHR ''/'')
      else if e = CHR ''b'' then Some (CHR 0x08)
      else if e = CHR ''f'' then Some (CHR 0x0C)
      else if e = CHR ''n'' then Some (CHR 0x0A)
      else if e = CHR ''r'' then Some (CHR 0x0D)
      else if e = CHR ''t'' then Some (CHR 0x09)
      else None)"

text \<open>
  The body of a string literal, after its opening quote: the decoded text and what
  follows the closing quote.  A raw control character is refused (strict mode), and so
  is an escape that names a code point above 255.
\<close>

fun lex_string :: "string \<Rightarrow> (string \<times> string) option" where
  "lex_string [] = None"
| "lex_string (c # cs) =
     (if c = CHR 0x22 then Some ([], cs)
      else if c = CHR 0x5C then
        (case cs of
           [] \<Rightarrow> None
         | e # cs' \<Rightarrow>
             if e = CHR ''u'' then
               (case cs' of
                  h1 # h2 # h3 # h4 # cs'' \<Rightarrow>
                    (case hex4 h1 h2 h3 h4 of
                       None \<Rightarrow> None
                     | Some n \<Rightarrow>
                         if n < 256 then
                           (case lex_string cs'' of
                              None \<Rightarrow> None
                            | Some (s, r) \<Rightarrow> Some (char_of n # s, r))
                         else None)
                | _ \<Rightarrow> None)
             else
               (case unescape e of
                  None \<Rightarrow> None
                | Some ch \<Rightarrow>
                    (case lex_string cs' of
                       None \<Rightarrow> None
                     | Some (s, r) \<Rightarrow> Some (ch # s, r))))
      else if (of_char c :: nat) < 32 then None
      else (case lex_string cs of
              None \<Rightarrow> None
            | Some (s, r) \<Rightarrow> Some (c # s, r)))"

definition whitespace :: "char \<Rightarrow> bool" where
  "whitespace c = (c = CHR '' '' \<or> c = CHR 0x09 \<or> c = CHR 0x0A \<or> c = CHR 0x0D)"

function lex :: "string \<Rightarrow> token list option" where
  "lex [] = Some []"
| "lex (c # cs) =
     (if whitespace c then lex cs
      else if c = CHR ''{'' then map_option ((#) LBrace) (lex cs)
      else if c = CHR ''}'' then map_option ((#) RBrace) (lex cs)
      else if c = CHR ''['' then map_option ((#) LBrack) (lex cs)
      else if c = CHR '']'' then map_option ((#) RBrack) (lex cs)
      else if c = CHR '','' then map_option ((#) Comma) (lex cs)
      else if c = CHR '':'' then map_option ((#) Colon) (lex cs)
      else if c = CHR ''n'' \<and> take 3 cs = ''ull'' then map_option ((#) TNull) (lex (drop 3 cs))
      else if c = CHR ''t'' \<and> take 3 cs = ''rue'' then map_option ((#) TTrue) (lex (drop 3 cs))
      else if c = CHR ''f'' \<and> take 4 cs = ''alse'' then map_option ((#) TFalse) (lex (drop 4 cs))
      else if c = CHR 0x22 then
        (case lex_string cs of
           None \<Rightarrow> None
         | Some (s, r) \<Rightarrow> map_option ((#) (TStr s)) (lex r))
      else None)"
  by pat_completeness auto
termination
proof -
  have shorter: "lex_string cs = Some (s, r) \<Longrightarrow> length r \<le> length cs" for cs s r
  proof (induction cs arbitrary: s r rule: lex_string.induct)
    case 1
    then show ?case by simp
  next
    case (2 c cs)
    show ?case
      using "2.prems" "2.IH"
      by (simp split: if_splits list.splits option.splits prod.splits) fastforce+
  qed
  show ?thesis
    by (relation "measure length") (auto dest: shorter)
qed

text \<open>
  The parser works on the tokens.  Its first argument bounds the depth of the recursion;
  \<open>json_loads\<close> starts it with more than the text can use.
\<close>

fun parse_value :: "nat \<Rightarrow> token list \<Rightarrow> (json \<times> token list) option"
  and parse_items :: "nat \<Rightarrow> token list \<Rightarrow> (json list \<times> token list) option"
  and parse_members :: "nat \<Rightarrow> token list \<Rightarrow> ((string \<times> json) list \<times> token list) option" where
  "parse_value 0 ts = None"
| "parse_value (Suc n) [] = None"
| "parse_value (Suc n) (TNull # ts) = Some (JNull, ts)"
| "parse_value (Suc n) (TTrue # ts) = Some (JBool True, ts)"
| "parse_value (Suc n) (TFalse # ts) = Some (JBool False, ts)"
| "parse_value (Suc n) (TStr s # ts) = Some (JStr s, ts)"
| "parse_value (Suc n) (LBrack # RBrack # ts) = Some (JArr [], ts)"
| "parse_value (Suc n) (LBrack # ts) =
     (case parse_items n ts of None \<Rightarrow> None | Some (xs, r) \<Rightarrow> Some (JArr xs, r))"
| "parse_value (Suc n) (LBrace # RBrace # ts) = Some (JObj [], ts)"
| "parse_value (Suc n) (LBrace # ts) =
     (case parse_members n ts of None \<Rightarrow> None | Some (kvs, r) \<Rightarrow> Some (JObj (dict_of kvs), r))"
| "parse_value (Suc n) (t # ts) = None"
| "parse_items 0 ts = None"
| "parse_items (Suc n) ts =
     (case parse_value n ts of
        None \<Rightarrow> None
      | Some (x, RBrack # r) \<Rightarrow> Some ([x], r)
      | Some (x, Comma # r) \<Rightarrow>
          (case parse_items n r of None \<Rightarrow> None | Some (xs, r') \<Rightarrow> Some (x # xs, r'))
      | Some (x, r) \<Rightarrow> None)"
| "parse_members 0 ts = None"
| "parse_members (Suc n) (TStr k # Colon # ts) =
     (case parse_value n ts of
        None \<Rightarrow> None
      | Some (v, RBrace # r) \<Rightarrow> Some ([(k, v)], r)
      | Some (v, Comma # r) \<Rightarrow>
          (case parse_members n r of None \<Rightarrow> None | Some (kvs, r') \<Rightarrow> Some ((k, v) # kvs, r'))
      | Some (v, r) \<Rightarrow> None)"
| "parse_members (Suc n) ts = None"


subsection \<open>The tokens of a written value\<close>



section \<open>Exceptions\<close>

text \<open>
  The exceptions that the script can meet, all of them subclasses of \<open>Exception\<close>,
  each with the text that \<open>str\<close> gives for it.  The wording of the library's
  messages is not modelled.
\<close>

datatype exn =
    BinanceAPIException string
  | JSONDecodeError string
  | KeyError string
  | TypeError string
  | IndexError string
  | FileNotFoundError string

fun str_exn :: "exn \<Rightarrow> string" where
  "str_exn (BinanceAPIException m) = m"
| "str_exn (JSONDecodeError m) = m"
| "str_exn (KeyError m) = m"
| "str_exn (TypeError m) = m"
| "str_exn (IndexError m) = m"
| "str_exn (FileNotFoundError m) = m"

definition json_loads :: "string \<Rightarrow> exn + json" where
  "json_loads s =
     (case lex s of
        None \<Rightarrow> Inl (JSONDecodeError ''Expecting value'')
      | Some ts \<Rightarrow>
          (case parse_value (2 * length ts + 2) ts of
             Some (v, []) \<Rightarrow> Inr v
           | _ \<Rightarrow> Inl (JSONDecodeError ''Expecting value'')))"

text \<open>\<open>obj[k]\<close> for a string key \<open>k\<close>.\<close>

fun getitem :: "json \<Rightarrow> string \<Rightarrow> exn + json" where
  "getitem (JObj d) k =
     (case map_of d k of None \<Rightarrow> Inl (KeyError k) | Some v \<Rightarrow> Inr v)"
| "getitem x k = Inl (TypeError ''not subscriptable with a string'')"

section \<open>The exchange and the files\<close>

text \<open>
  An order as the exchange reports it.  The fills carry \<open>float(fill["price"])\<close> and
  \<open>float(fill["qty"])\<close>.  A finite float is modelled by the real number that it
  denotes; how the float operations round is not fixed here, see \<open>float_mul\<close> and
  \<open>float_add\<close> below.
\<close>

record fill =
  price :: real
  qty :: real

record order =
  orderId :: int
  status :: string
  fills :: "fill list"

datatype api_call =
    Get_historical_klines string
  | Order_market_buy string real
  | Order_market_sell string real
  | Get_order string int

text \<open>
  What lies outside the script during one pass: the answers of the exchange client (an
  exception or a value; \<open>get_order\<close> is indexed by the number of earlier look-ups of
  the pass) and the date and time that \<open>datetime.now()\<close> formats.  A candlestick is
  reduced to its time and closing price, as \<open>fetch_klines\<close> does.  The platform's
  float arithmetic is part of the surroundings too: \<open>float_mul x y\<close> and
  \<open>float_add x y\<close> are the floats that \<open>x * y\<close> and \<open>x + y\<close> give, with
  whatever rounding the platform applies.
\<close>

record env =
  get_historical_klines :: "string \<Rightarrow> exn + (int \<times> real) list"
  order_market_buy :: "string \<Rightarrow> real \<Rightarrow> exn + order"
  order_market_sell :: "string \<Rightarrow> real \<Rightarrow> exn + order"
  get_order :: "string \<Rightarrow> int \<Rightarrow> nat \<Rightarrow> exn + order"
  today :: string
  clock :: string
  float_mul :: "real \<Rightarrow> real \<Rightarrow> real"
  float_add :: "real \<Rightarrow> real \<Rightarrow> real"

text \<open>
  A line of the activity log is \<open>time : msg\<close>; the message of a trade interpolates two
  floats, which stay symbolic.  A line of the trade file is the header
  \<open>sym,side,amount,price\<close> or a row with these four columns.
\<close>

datatype message = Text string | Trade_message string real string real

datatype trade_line = Header_line | Trade_line string string real real

text \<open>
  What the script changes outside itself: the account file (\<open>None\<close> while it does not
  exist), the daily log and trade files by name, the requests sent to the exchange, and
  the seconds spent in \<open>time.sleep\<close>.  Console output is left out, and the two
  directories are taken to exist.
\<close>

record world =
  account_file :: "string option"
  log_files :: "string \<rightharpoonup> (string \<times> message) list"
  trade_files :: "string \<rightharpoonup> trade_line list"
  calls :: "api_call list"
  slept :: nat

definition asset :: string where
  "asset = ''BTCUSDT''"

text \<open>
  Writing the account: \<open>f.write(json.dumps(account))\<close> on the account file opened for
  writing, as \<open>create_account\<close> and the end of \<open>do_trade\<close> do it.
\<close>

definition save_account :: "json \<Rightarrow> world \<Rightarrow> world" where
  "save_account acct w = w\<lparr>account_file := Some (json_dumps acct)\<rparr>"

definition create_account :: "world \<Rightarrow> world" where
  "create_account w =
     save_account (JObj [(''is_buying'', JBool True), (''assets'', JObj [])]) w"

text \<open>\<open>log(msg)\<close>; the name avoids the logarithm of the library.\<close>

definition log_msg :: "env \<Rightarrow> message \<Rightarrow> world \<Rightarrow> world" where
  "log_msg e msg w =
     w\<lparr>log_files := (log_files w)(today e \<mapsto>
         (case log_files w (today e) of None \<Rightarrow> [] | Some ls \<Rightarrow> ls) @ [(clock e, msg)])\<rparr>"

definition trade_log :: "env \<Rightarrow> string \<Rightarrow> string \<Rightarrow> real \<Rightarrow> real \<Rightarrow> world \<Rightarrow> world" where
  "trade_log e symb side price_arg amount w =
     (let w1 = log_msg e (Trade_message side amount symb price_arg) w;
          w2 = (if trade_files w1 (today e) = None
                then w1\<lparr>trade_files := (trade_files w1)(today e \<mapsto> [Header_line])\<rparr>
                else w1)
      in w2\<lparr>trade_files := (trade_files w2)(today e \<mapsto>
             (case trade_files w2 (today e) of None \<Rightarrow> [] | Some ls \<Rightarrow> ls)
             @ [Trade_line symb side amount price_arg])\<rparr>)"

section \<open>\<open>do_trade\<close>\<close>

text \<open>
  The polling loop of \<open>do_trade\<close> (source lines 214 to 216).  The loop has no bound,
  so it is a partial function: \<open>None\<close> means that it never ends.  It returns the
  exception of a failed look-up or the order that was seen as filled.
\<close>

partial_function (option) poll ::
  "env \<Rightarrow> string \<Rightarrow> int \<Rightarrow> order \<Rightarrow> nat \<Rightarrow> world \<Rightarrow> ((exn + order) \<times> world) option" where
  "poll e symb order_id ord k w =
     (if status ord \<noteq> ''FILLED'' then
        (let w1 = w\<lparr>calls := calls w @ [Get_order symb order_id]\<rparr> in
         case get_order e symb order_id k of
           Inl ex \<Rightarrow> Some (Inl ex, w1)
         | Inr ord' \<Rightarrow> poll e symb order_id ord' (Suc k) (w1\<lparr>slept := slept w1 + 1\<rparr>))
      else Some (Inr ord, w))"

text \<open>
  The expression of source lines 220 to 222: the float products of price and quantity
  of the fills, added up by Python's \<open>sum\<close>, a left fold of float additions that
  starts from 0.
\<close>

definition price_paid :: "env \<Rightarrow> fill list \<Rightarrow> real" where
  "price_paid e fs =
     foldl (float_add e) 0 (map (\<lambda>f. float_mul e (price f) (qty f)) fs)"

text \<open>\<open>obj[k] = v\<close> for a string key \<open>k\<close>.\<close>

fun setitem :: "json \<Rightarrow> string \<Rightarrow> json \<Rightarrow> exn + json" where
  "setitem (JObj d) k v = Inr (JObj (dict_set d k v))"
| "setitem x k v = Inl (TypeError ''does not support item assignment with a string'')"

text \<open>
  \<open>do_trade(account, client, asset, side, quantity)\<close>.  The account is an object that
  the function changes in place, so the changed object is returned next to the outcome,
  also when an exception ends the call.
\<close>

definition do_trade ::
  "env \<Rightarrow> json \<Rightarrow> string \<Rightarrow> string \<Rightarrow> real \<Rightarrow> world \<Rightarrow> (json \<times> (exn + unit) \<times> world) option" where
  "do_trade e account symb side quantity w =
     (let (call, answer, flag) =
            (if side = ''buy''
             then (Order_market_buy symb quantity, order_market_buy e symb quantity, False)
             else (Order_market_sell symb quantity, order_market_sell e symb quantity, True));
          w1 = w\<lparr>calls := calls w @ [call]\<rparr>
      in case answer of
           Inl ex \<Rightarrow> Some (account, Inl ex, w1)
         | Inr ord \<Rightarrow>
             (case setitem account ''is_buying'' (JBool flag) of
                Inl ex \<Rightarrow> Some (account, Inl ex, w1)
              | Inr account' \<Rightarrow>
                  (case poll e symb (orderId ord) ord 0 w1 of
                     None \<Rightarrow> None
                   | Some (Inl ex, w2) \<Rightarrow> Some (account', Inl ex, w2)
                   | Some (Inr ord', w2) \<Rightarrow>
                       (let w3 = trade_log e symb side (price_paid e (fills ord')) quantity w2
                        in Some (account', Inr (), save_account account' w3)))))"

section \<open>The indicator and \<open>get_rsi\<close>\<close>

definition period :: nat where
  "period = 14"

definition diffs :: "real list \<Rightarrow> real list" where
  "diffs ps = map (\<lambda>(a, b). b - a) (zip ps (tl ps))"

text \<open>
  Modelled from the spec: the indicator \<open>ta.rsi\<close> belongs to the library
  \<open>pandas_ta\<close>, which is not part of the source.  The specification (section 4.1)
  describes it: the reading for the most recent sample uses Wilder's smoothing over a
  window of 14 price differences, the ratio RS of average gain to average loss, and the
  transformation \<open>100 - 100 / (1 + RS)\<close>; with fewer than \<open>period + 1\<close> samples the
  result is NaN.  A zero average loss follows float division: a positive gain over zero
  gives the reading 100, zero over zero gives NaN.
\<close>

definition rsi_latest :: "real list \<Rightarrow> rsi_value" where
  "rsi_latest ps =
     (if length ps < period + 1 then NaN
      else
        (let ds = diffs ps;
             gains = map (\<lambda>d. max d 0) ds;
             losses = map (\<lambda>d. max (- d) 0) ds;
             smooth = (\<lambda>a x. (a * (real period - 1) + x) / real period);
             ag = foldl smooth (sum_list (take period gains) / real period) (drop period gains);
             al = foldl smooth (sum_list (take period losses) / real period) (drop period losses)
         in if al = 0 then (if ag = 0 then NaN else Val 100)
            else Val (100 - 100 / (1 + ag / al))))"

text \<open>
  Modelled from the spec: \<open>ta.rsi(close, length=14)\<close> gives a column with one reading
  for each sample, the reading of the samples up to that one.
\<close>

definition ta_rsi :: "real list \<Rightarrow> rsi_value list" where
  "ta_rsi ps = map (\<lambda>n. rsi_latest (take n ps)) [1..<Suc (length ps)]"

definition fetch_klines :: "env \<Rightarrow> string \<Rightarrow> world \<Rightarrow> (exn + (int \<times> real) list) \<times> world" where
  "fetch_klines e symb w =
     (get_historical_klines e symb, w\<lparr>calls := calls w @ [Get_historical_klines symb]\<rparr>)"

text \<open>
  \<open>get_rsi\<close> takes the last entry of the column with \<open>.iloc[-1]\<close>, which raises
  IndexError on an empty column.
\<close>

definition get_rsi :: "env \<Rightarrow> string \<Rightarrow> world \<Rightarrow> (exn + rsi_value) \<times> world" where
  "get_rsi e symb w =
     (let (answer, w1) = fetch_klines e symb w in
      case answer of
        Inl ex \<Rightarrow> (Inl ex, w1)
      | Inr klines \<Rightarrow>
          (case ta_rsi (map snd klines) of
             [] \<Rightarrow> (Inl (IndexError ''single positional indexer is out-of-bounds''), w1)
           | r # rs \<Rightarrow> (Inr (last (r # rs)), w1)))"

section \<open>The main loop\<close>

text \<open>
  The first two statements of a pass (source lines 237 to 241): create the account
  file if it is missing, then read and parse it.
\<close>

definition load_account :: "world \<Rightarrow> (exn + json) \<times> world" where
  "load_account w =
     (let w1 = (if account_file w = None then create_account w else w) in
      case account_file w1 of
        None \<Rightarrow> (Inl (FileNotFoundError ''path-to-account''), w1)
      | Some content \<Rightarrow> (json_loads content, w1))"

text \<open>The script's global variables, and the world around it.\<close>

record state =
  wld :: world
  rsi :: rsi_value
  old_rsi :: rsi_value
  account :: "json option"

text \<open>
  The body of the \<open>try\<close> statement (source lines 237 to 257): the exception that
  ended it or \<open>()\<close>, and the state at that point; \<open>None\<close> when the pass never ends.
\<close>

definition try_block :: "env \<Rightarrow> state \<Rightarrow> ((exn + unit) \<times> state) option" where
  "try_block e st =
     (let (loaded, w1) = load_account (wld st) in
      case loaded of
        Inl ex \<Rightarrow> Some (Inl ex, st\<lparr>wld := w1\<rparr>)
      | Inr acct \<Rightarrow>
          (let st1 = st\<lparr>wld := w1, account := Some acct, old_rsi := rsi st\<rparr>;
               (reading, w2) = get_rsi e asset w1
           in case reading of
                Inl ex \<Rightarrow> Some (Inl ex, st1\<lparr>wld := w2\<rparr>)
              | Inr r \<Rightarrow>
                  (let st2 = st1\<lparr>wld := w2, rsi := r\<rparr> in
                   case getitem acct ''is_buying'' of
                     Inl ex \<Rightarrow> Some (Inl ex, st2)
                   | Inr v \<Rightarrow>
                       (case signal (truthy v) r (old_rsi st2) of
                          None \<Rightarrow> Some (Inr (), st2\<lparr>wld := w2\<lparr>slept := slept w2 + 3\<rparr>\<rparr>)
                        | Some side \<Rightarrow>
                            (case do_trade e acct asset side (1 / 1000) w2 of
                               None \<Rightarrow> None
                             | Some (acct', Inl ex, w3) \<Rightarrow>
                                 Some (Inl ex, st2\<lparr>wld := w3, account := Some acct'\<rparr>)
                             | Some (acct', Inr u, w3) \<Rightarrow>
                                 Some (Inr (), st2\<lparr>wld := w3\<lparr>slept := slept w3 + 3\<rparr>,
                                                   account := Some acct'\<rparr>))))))"

text \<open>
  One pass of \<open>while True\<close>: the \<open>try\<close> body, and on an exception the handler, which
  logs \<open>"ERROR" + str(e)\<close>.  The result is the state in which the next pass starts.
\<close>

definition loop_body :: "env \<Rightarrow> state \<Rightarrow> state option" where
  "loop_body e st =
     (case try_block e st of
        None \<Rightarrow> None
      | Some (Inr u, st') \<Rightarrow> Some st'
      | Some (Inl ex, st') \<Rightarrow>
          Some (st'\<lparr>wld := log_msg e (Text (''ERROR'' @ str_exn ex)) (wld st')\<rparr>))"

text \<open>The first \<open>n\<close> passes of the loop, each with its own surroundings.\<close>

fun run :: "(nat \<Rightarrow> env) \<Rightarrow> nat \<Rightarrow> state \<Rightarrow> state option" where
  "run es 0 st = Some st"
| "run es (Suc n) st =
     (case loop_body (es 0) st of
        None \<Rightarrow> None
      | Some st' \<Rightarrow> run (\<lambda>i. es (Suc i)) n st')"


section \<open>What the exchange reports about an order\<close>

text \<open>
  The definitions of this section are not part of the script; they describe the
  surroundings in which \<open>do_trade\<close> runs, so that its behaviour can be stated.  The
  reports about an order are the answer to its submission followed by the answers to the
  status look-ups.
\<close>

definition call_of :: "string \<Rightarrow> string \<Rightarrow> real \<Rightarrow> api_call" where
  "call_of side symb q =
     (if side = ''buy'' then Order_market_buy symb q else Order_market_sell symb q)"

definition answer_of :: "env \<Rightarrow> string \<Rightarrow> string \<Rightarrow> real \<Rightarrow> exn + order" where
  "answer_of e symb side q =
     (if side = ''buy'' then order_market_buy e symb q else order_market_sell e symb q)"

definition reports :: "env \<Rightarrow> string \<Rightarrow> string \<Rightarrow> real \<Rightarrow> nat \<Rightarrow> exn + order" where
  "reports e symb side q n =
     (case answer_of e symb side q of
        Inl ex \<Rightarrow> Inl ex
      | Inr ord \<Rightarrow> (case n of 0 \<Rightarrow> Inr ord | Suc k \<Rightarrow> get_order e symb (orderId ord) k))"

text \<open>The first \<open>n\<close> reports are orders whose status is not \<open>FILLED\<close>.\<close>

fun unfilled :: "(nat \<Rightarrow> exn + order) \<Rightarrow> nat \<Rightarrow> bool" where
  "unfilled f 0 = True"
| "unfilled f (Suc n) =
     (unfilled f n \<and> (case f n of Inl ex \<Rightarrow> False | Inr ord \<Rightarrow> status ord \<noteq> ''FILLED''))"

text \<open>The requests that \<open>do_trade\<close> has sent when it has made \<open>n\<close> look-ups.\<close>

definition requests :: "env \<Rightarrow> string \<Rightarrow> string \<Rightarrow> real \<Rightarrow> nat \<Rightarrow> api_call list" where
  "requests e symb side q n =
     call_of side symb q #
     (case answer_of e symb side q of
        Inl ex \<Rightarrow> []
      | Inr ord \<Rightarrow> replicate n (Get_order symb (orderId ord)))"

text \<open>
  The reports that the polling loop meets when it starts with the order \<open>ord\<close> and has
  made \<open>k\<close> look-ups: the order itself, then the answers to the look-ups to come.
\<close>

definition seq :: "env \<Rightarrow> string \<Rightarrow> int \<Rightarrow> order \<Rightarrow> nat \<Rightarrow> nat \<Rightarrow> exn + order" where
  "seq e symb oid ord k n = (case n of 0 \<Rightarrow> Inr ord | Suc i \<Rightarrow> get_order e symb oid (k + i))"

text \<open>The account after the assignment to \<open>account["is_buying"]\<close> in \<open>do_trade\<close>.\<close>

definition flipped :: "(string \<times> json) list \<Rightarrow> string \<Rightarrow> json" where
  "flipped d side = JObj (dict_set d ''is_buying'' (JBool (side \<noteq> ''buy'')))"


text \<open>Orders and status look-ups among the requests.\<close>

fun is_order :: "api_call \<Rightarrow> bool" where
  "is_order (Order_market_buy s q) = True"
| "is_order (Order_market_sell s q) = True"
| "is_order c = False"

fun is_look_up :: "api_call \<Rightarrow> bool" where
  "is_look_up (Get_order s i) = True"
| "is_look_up c = False"

definition look_ups :: "api_call list \<Rightarrow> nat" where
  "look_ups cs = length (filter is_look_up cs)"




section \<open>Sample surroundings\<close>

text \<open>
  Concrete surroundings on which the statements below are tried: a world with a fresh
  account file, an order that is not yet filled and the same order once filled in two
  parts, an exchange whose status look-up fails, one that reports the order filled at
  the second look-up, and one that never does.  The prices and quantities of the samples
  are small whole numbers, on which float multiplication and addition are exact, so the
  sample surroundings compute with \<open>(*)\<close> and \<open>(+)\<close>.
\<close>

definition fresh_account :: json where
  "fresh_account = JObj [(''is_buying'', JBool True), (''assets'', JObj [])]"

definition world0 :: world where
  "world0 = \<lparr>account_file = Some (json_dumps fresh_account), log_files = Map.empty,
             trade_files = Map.empty, calls = [], slept = 0\<rparr>"

definition new_order :: order where
  "new_order = \<lparr>orderId = 7, status = ''NEW'', fills = []\<rparr>"

definition filled_order :: order where
  "filled_order = \<lparr>orderId = 7, status = ''FILLED'',
                    fills = [\<lparr>price = 100, qty = 2\<rparr>, \<lparr>price = 101, qty = 1\<rparr>]\<rparr>"

definition env_lookup_fails :: env where
  "env_lookup_fails =
     \<lparr>get_historical_klines = (\<lambda>s. Inl (BinanceAPIException ''no data'')),
      order_market_buy = (\<lambda>s q. Inr new_order),
      order_market_sell = (\<lambda>s q. Inr new_order),
      get_order = (\<lambda>s i k. Inl (BinanceAPIException ''timeout'')),
      today = ''2024-01-01'', clock = ''12:00:00'',
      float_mul = (*), float_add = (+)\<rparr>"

definition env_fills_later :: env where
  "env_fills_later =
     \<lparr>get_historical_klines = (\<lambda>s. Inr []),
      order_market_buy = (\<lambda>s q. Inr new_order),
      order_market_sell = (\<lambda>s q. Inr new_order),
      get_order = (\<lambda>s i k. if k = 0 then Inr new_order else Inr filled_order),
      today = ''2024-01-01'', clock = ''12:00:00'',
      float_mul = (*), float_add = (+)\<rparr>"




text \<open>An exchange with three candlesticks, and the script's state before a pass.\<close>

definition env_short_history :: env where
  "env_short_history =
     \<lparr>get_historical_klines = (\<lambda>s. Inr [(0, 100), (60000, 98), (120000, 96)]),
      order_market_buy = (\<lambda>s q. Inr new_order),
      order_market_sell = (\<lambda>s q. Inr new_order),
      get_order = (\<lambda>s i k. Inr filled_order),
      today = ''2024-01-01'', clock = ''12:00:00'',
      float_mul = (*), float_add = (+)\<rparr>"

definition state0 :: state where
  "state0 = \<lparr>wld = world0, rsi = Val 50, old_rsi = Val 50, account = None\<rparr>"

section \<open>The signal decision\<close>

text \<open>
  C1, as the specification states it: in seeking-entry state a BUY fires if and only if
  the current reading is below the entry threshold and the previous reading is at or
  above it.  The source compares the previous reading strictly (\<open>old_rsi > entry\<close>), so
  with the previous reading exactly on the threshold 38 and the current reading 30 the
  stated condition holds and no BUY fires.
\<close>

theorem buy_signal_counterexample:
  "\<not> (signal True (Val 30) (Val 38) = Some ''buy'' \<longleftrightarrow> (30::real) < 38 \<and> (38::real) \<ge> 38)"
  by (simp add: signal_def entry_def)

text \<open>
  C1, amended to the strict comparison of the source: the entry threshold is 38; a BUY
  fires if and only if the account is seeking entry, the current reading is below 38
  and the previous reading is above 38; in seeking-entry state nothing else fires; in
  seeking-exit state no BUY fires.  An undefined reading satisfies no comparison.
\<close>

theorem buy_signal_iff:
  "entry = 38 \<and>
   (signal is_buying cur prev = Some ''buy'' \<longleftrightarrow> is_buying \<and> lt cur 38 \<and> gt prev 38) \<and>
   (is_buying \<longrightarrow> signal is_buying cur prev = (if lt cur 38 \<and> gt prev 38 then Some ''buy'' else None)) \<and>
   (\<not> is_buying \<longrightarrow> signal is_buying cur prev \<noteq> Some ''buy'')"
  by (simp add: signal_def entry_def)

theorem buy_signal_iff_witness:
  "signal True (Val 30) (Val 40) = Some ''buy'' \<and> signal False (Val 30) (Val 40) \<noteq> Some ''buy''"
  using buy_signal_iff [of True "Val 30" "Val 40"] buy_signal_iff [of False "Val 30" "Val 40"]
  by simp

text \<open>
  C2, as the specification states it: in seeking-exit state a SELL fires if and only if
  the current reading is above the exit threshold and the previous reading is at or
  below it.  The source compares the previous reading strictly (\<open>old_rsi < exit\<close>), so
  with the previous reading exactly on the threshold 78 and the current reading 80 the
  stated condition holds and no SELL fires.
\<close>

theorem sell_signal_counterexample:
  "\<not> (signal False (Val 80) (Val 78) = Some ''sell'' \<longleftrightarrow> (80::real) > 78 \<and> (78::real) \<le> 78)"
  by (simp add: signal_def exit_def)

text \<open>
  C2, amended to the strict comparison of the source: the exit threshold is 78; a SELL
  fires if and only if the account is seeking exit, the current reading is above 78 and
  the previous reading is below 78; in seeking-exit state nothing else fires; in
  seeking-entry state no SELL fires.
\<close>

theorem sell_signal_iff:
  "exit = 78 \<and>
   (signal is_buying cur prev = Some ''sell'' \<longleftrightarrow> \<not> is_buying \<and> gt cur 78 \<and> lt prev 78) \<and>
   (\<not> is_buying \<longrightarrow> signal is_buying cur prev = (if gt cur 78 \<and> lt prev 78 then Some ''sell'' else None)) \<and>
   (is_buying \<longrightarrow> signal is_buying cur prev \<noteq> Some ''sell'')"
  by (simp add: signal_def exit_def)

theorem sell_signal_iff_witness:
  "signal False (Val 80) (Val 70) = Some ''sell'' \<and> signal True (Val 80) (Val 70) \<noteq> Some ''sell''"
  using sell_signal_iff [of False "Val 80" "Val 70"] sell_signal_iff [of True "Val 80" "Val 70"]
  by simp

section \<open>Reading back what was written\<close>



































section \<open>The polling loop and \<open>do_trade\<close> against the reports\<close>

lemma unfilled_Suc_shift:
  "unfilled f (Suc n) \<longleftrightarrow> (case f 0 of Inl ex \<Rightarrow> False | Inr ord \<Rightarrow> status ord \<noteq> ''FILLED'') \<and> unfilled (\<lambda>j. f (Suc j)) n"
  by (induction n) auto

lemma unfilled_nth:
  "unfilled f n \<Longrightarrow> j < n \<Longrightarrow> \<exists>ord. f j = Inr ord \<and> status ord \<noteq> ''FILLED''"
  by (induction n) (auto simp: less_Suc_eq split: sum.splits)

lemma seq_shift:
  "get_order e symb oid k = Inr ord' \<Longrightarrow> (\<lambda>j. seq e symb oid ord k (Suc j)) = seq e symb oid ord' (Suc k)"
  by (rule ext) (simp add: seq_def split: nat.splits)

lemma poll_filled:
  "unfilled (seq e symb oid ord k) n \<Longrightarrow> seq e symb oid ord k n = Inr ord' \<Longrightarrow> status ord' = ''FILLED'' \<Longrightarrow>
   poll e symb oid ord k w =
     Some (Inr ord', w\<lparr>calls := calls w @ replicate n (Get_order symb oid), slept := slept w + n\<rparr>)"
proof (induction n arbitrary: ord k w)
  case 0
  then show ?case by (subst poll.simps) (simp add: seq_def)
next
  case (Suc n)
  from Suc.prems(1) have nf: "status ord \<noteq> ''FILLED''" and rest: "unfilled (\<lambda>j. seq e symb oid ord k (Suc j)) n"
    unfolding unfilled_Suc_shift by (simp_all add: seq_def)
  show ?case
  proof (cases "get_order e symb oid k")
    case (Inl ex)
    show ?thesis
    proof (cases n)
      case 0
      with Suc.prems(2) Inl show ?thesis by (simp add: seq_def)
    next
      case (Suc m)
      with unfilled_nth [OF rest, of 0] Inl show ?thesis by (simp add: seq_def)
    qed
  next
    case (Inr o1)
    have sh: "(\<lambda>j. seq e symb oid ord k (Suc j)) = seq e symb oid o1 (Suc k)"
      by (rule seq_shift [OF Inr])
    have u2: "unfilled (seq e symb oid o1 (Suc k)) n"
      using rest unfolding sh .
    have s2: "seq e symb oid o1 (Suc k) n = Inr ord'"
      using Suc.prems(2) fun_cong [OF sh, of n] by simp
    show ?thesis
      using nf Inr Suc.IH [OF u2 s2 Suc.prems(3)]
      by (subst poll.simps) (simp add: Let_def)
  qed
qed

lemma poll_failed:
  "unfilled (seq e symb oid ord k) n \<Longrightarrow> seq e symb oid ord k n = Inl ex \<Longrightarrow>
   poll e symb oid ord k w =
     Some (Inl ex, w\<lparr>calls := calls w @ replicate n (Get_order symb oid), slept := slept w + (n - 1)\<rparr>)"
proof (induction n arbitrary: ord k w)
  case 0
  then show ?case by (simp add: seq_def)
next
  case (Suc n)
  from Suc.prems(1) have nf: "status ord \<noteq> ''FILLED''" and rest: "unfilled (\<lambda>j. seq e symb oid ord k (Suc j)) n"
    unfolding unfilled_Suc_shift by (simp_all add: seq_def)
  show ?case
  proof (cases "get_order e symb oid k")
    case (Inl ex')
    show ?thesis
    proof (cases n)
      case 0
      with Suc.prems(2) Inl nf show ?thesis
        by (subst poll.simps) (simp add: seq_def Let_def)
    next
      case (Suc m)
      with unfilled_nth [OF rest, of 0] Inl show ?thesis by (simp add: seq_def)
    qed
  next
    case (Inr o1)
    have sh: "(\<lambda>j. seq e symb oid ord k (Suc j)) = seq e symb oid o1 (Suc k)"
      by (rule seq_shift [OF Inr])
    have u2: "unfilled (seq e symb oid o1 (Suc k)) n"
      using rest unfolding sh .
    have s2: "seq e symb oid o1 (Suc k) n = Inl ex"
      using Suc.prems(2) fun_cong [OF sh, of n] by simp
    have npos: "0 < n"
      using s2 by (cases n) (simp_all add: seq_def)
    show ?thesis
      using nf Inr npos Suc.IH [OF u2 s2]
      by (subst poll.simps) (simp add: Let_def)
  qed
qed

lemma poll_returns:
  assumes "poll e symb oid ord k w = Some y"
  shows "\<exists>n. \<not> unfilled (seq e symb oid ord k) n"
proof (rule poll.raw_induct
    [where P = "\<lambda>e symb oid ord k w y. \<exists>n. \<not> unfilled (seq e symb oid ord k) n", OF _ assms])
  fix f e symb oid ord k w and y :: "(exn + order) \<times> world"
  assume IH: "\<And>e symb oid ord k w y. f e symb oid ord k w = Some y \<Longrightarrow>
                \<exists>n. \<not> unfilled (seq e symb oid ord k) n"
    and body: "(if status ord \<noteq> ''FILLED''
       then let w1 = w\<lparr>calls := calls w @ [Get_order symb oid]\<rparr>
            in case get_order e symb oid k of Inl ex \<Rightarrow> Some (Inl ex, w1)
               | Inr ord' \<Rightarrow> f e symb oid ord' (Suc k) (w1\<lparr>slept := slept w1 + 1\<rparr>)
       else Some (Inr ord, w)) = Some y"
  show "\<exists>n. \<not> unfilled (seq e symb oid ord k) n"
  proof (cases "status ord = ''FILLED''")
    case True
    then have "\<not> unfilled (seq e symb oid ord k) (Suc 0)" by (simp add: seq_def)
    then show ?thesis by blast
  next
    case nf: False
    show ?thesis
    proof (cases "get_order e symb oid k")
      case (Inl ex)
      then have "\<not> unfilled (seq e symb oid ord k) (Suc (Suc 0))" by (simp add: seq_def)
      then show ?thesis by blast
    next
      case (Inr o1)
      with nf body have "f e symb oid o1 (Suc k) (w\<lparr>calls := calls w @ [Get_order symb oid], slept := slept w + 1\<rparr>) = Some y"
        by (simp add: Let_def)
      from IH [OF this] obtain n where "\<not> unfilled (seq e symb oid o1 (Suc k)) n" by blast
      then have "\<not> unfilled (seq e symb oid ord k) (Suc n)"
        unfolding unfilled_Suc_shift [of _ n] seq_shift [OF Inr] by simp
      then show ?thesis by blast
    qed
  qed
qed

lemma poll_forever:
  "\<forall>n. unfilled (seq e symb oid ord k) n \<Longrightarrow> poll e symb oid ord k w = None"
  using poll_returns [of e symb oid ord k w] by (cases "poll e symb oid ord k w") auto


lemma reports_seq:
  "answer_of e symb side q = Inr ord \<Longrightarrow> reports e symb side q = seq e symb (orderId ord) ord 0"
  by (rule ext) (simp add: reports_def seq_def split: nat.splits)

lemma reports_Inl:
  "answer_of e symb side q = Inl ex \<Longrightarrow> reports e symb side q n = Inl ex"
  by (simp add: reports_def)

lemma do_trade_unfold:
  "do_trade e (JObj d) symb side q w =
     (case answer_of e symb side q of
        Inl ex \<Rightarrow> Some (JObj d, Inl ex, w\<lparr>calls := calls w @ [call_of side symb q]\<rparr>)
      | Inr ord \<Rightarrow>
          (case poll e symb (orderId ord) ord 0 (w\<lparr>calls := calls w @ [call_of side symb q]\<rparr>) of
             None \<Rightarrow> None
           | Some (Inl ex, w2) \<Rightarrow> Some (flipped d side, Inl ex, w2)
           | Some (Inr ord', w2) \<Rightarrow>
               Some (flipped d side, Inr (),
                     (trade_log e symb side (price_paid e (fills ord')) q w2)
                       \<lparr>account_file := Some (json_dumps (flipped d side))\<rparr>)))"
  by (simp add: do_trade_def answer_of_def call_of_def flipped_def save_account_def Let_def
           split: sum.splits option.splits prod.splits)

lemma do_trade_filled:
  assumes "unfilled (reports e symb side q) n"
    and "reports e symb side q n = Inr ord'"
    and "status ord' = ''FILLED''"
  shows "do_trade e (JObj d) symb side q w =
           Some (flipped d side, Inr (),
                 (trade_log e symb side (price_paid e (fills ord')) q
                    (w\<lparr>calls := calls w @ requests e symb side q n, slept := slept w + n\<rparr>))
                   \<lparr>account_file := Some (json_dumps (flipped d side))\<rparr>)"
proof (cases "answer_of e symb side q")
  case (Inl ex)
  with assms(2) show ?thesis by (simp add: reports_def)
next
  case (Inr ord)
  note rs = reports_seq [OF Inr]
  show ?thesis
    using poll_filled [OF assms(1) [unfolded rs] assms(2) [unfolded rs] assms(3),
        of "w\<lparr>calls := calls w @ [call_of side symb q]\<rparr>"] Inr
    by (simp add: do_trade_unfold requests_def)
qed

lemma do_trade_failed:
  assumes "unfilled (reports e symb side q) n"
    and "reports e symb side q n = Inl ex"
  shows "do_trade e (JObj d) symb side q w =
           Some (if n = 0 then JObj d else flipped d side, Inl ex,
                 w\<lparr>calls := calls w @ requests e symb side q n, slept := slept w + (n - 1)\<rparr>)"
proof (cases "answer_of e symb side q")
  case (Inl ex')
  have "n = 0"
    using unfilled_nth [OF assms(1), of 0] reports_Inl [OF Inl, of 0] by (cases n) auto
  with Inl assms(2) show ?thesis
    by (simp add: do_trade_unfold requests_def reports_def)
next
  case (Inr ord)
  note rs = reports_seq [OF Inr]
  have "n \<noteq> 0"
    using assms(2) Inr by (cases n) (auto simp: reports_def)
  then show ?thesis
    using poll_failed [OF assms(1) [unfolded rs] assms(2) [unfolded rs],
        of "w\<lparr>calls := calls w @ [call_of side symb q]\<rparr>"] Inr
    by (simp add: do_trade_unfold requests_def)
qed

lemma do_trade_forever:
  assumes "\<forall>n. unfilled (reports e symb side q) n"
  shows "do_trade e (JObj d) symb side q w = None"
proof (cases "answer_of e symb side q")
  case (Inl ex)
  with assms have "unfilled (reports e symb side q) (Suc 0)" by blast
  with Inl show ?thesis by (simp add: reports_def)
next
  case (Inr ord)
  note rs = reports_seq [OF Inr]
  show ?thesis
    using poll_forever [OF assms [unfolded rs], of "w\<lparr>calls := calls w @ [call_of side symb q]\<rparr>"] Inr
    by (simp add: do_trade_unfold)
qed

lemma reports_cases:
  "(\<forall>n. unfilled f n)
   \<or> (\<exists>n ex. unfilled f n \<and> f n = Inl ex)
   \<or> (\<exists>n ord. unfilled f n \<and> f n = Inr ord \<and> status ord = ''FILLED'')"
proof (cases "\<forall>n. unfilled f n")
  case True
  then show ?thesis by blast
next
  case False
  then obtain m where m: "\<not> unfilled f m" by blast
  define n where "n = (LEAST m. \<not> unfilled f m)"
  have bad: "\<not> unfilled f n"
    unfolding n_def using m by (rule LeastI)
  have least: "unfilled f j" if "j < n" for j
    using that not_less_Least unfolding n_def by blast
  from bad obtain n' where n': "n = Suc n'" by (cases n) auto
  have "unfilled f n'" using least [of n'] n' by simp
  with bad n' show ?thesis
    by (cases "f n'") auto
qed


lemma dict_set_lookup: "map_of (dict_set d k v) k = Some v"
  by (induction d) auto

lemma getitem_flipped: "getitem (flipped d side) ''is_buying'' = Inr (JBool (side \<noteq> ''buy''))"
  by (simp add: flipped_def dict_set_lookup)

lemma do_trade_cases:
  assumes "do_trade e (JObj d) symb side q w = Some (acct', r, w')"
  shows "(\<exists>n ex. unfilled (reports e symb side q) n \<and> reports e symb side q n = Inl ex \<and>
            r = Inl ex \<and> acct' = (if n = 0 then JObj d else flipped d side) \<and>
            w' = w\<lparr>calls := calls w @ requests e symb side q n, slept := slept w + (n - 1)\<rparr>)
       \<or> (\<exists>n ord. unfilled (reports e symb side q) n \<and> reports e symb side q n = Inr ord \<and>
            status ord = ''FILLED'' \<and> r = Inr () \<and> acct' = flipped d side \<and>
            w' = (trade_log e symb side (price_paid e (fills ord)) q
                    (w\<lparr>calls := calls w @ requests e symb side q n, slept := slept w + n\<rparr>))
                   \<lparr>account_file := Some (json_dumps (flipped d side))\<rparr>)"
  using reports_cases [of "reports e symb side q"]
proof (elim disjE exE conjE)
  assume "\<forall>n. unfilled (reports e symb side q) n"
  from do_trade_forever [OF this, of d w] assms show ?thesis by simp
next
  fix n ex
  assume u: "unfilled (reports e symb side q) n" and rp: "reports e symb side q n = Inl ex"
  have "Some (acct', r, w') =
          Some (if n = 0 then JObj d else flipped d side, Inl ex,
                w\<lparr>calls := calls w @ requests e symb side q n, slept := slept w + (n - 1)\<rparr>)"
    unfolding assms [symmetric] by (rule do_trade_failed [OF u rp])
  then have "acct' = (if n = 0 then JObj d else flipped d side)" and "r = Inl ex"
    and "w' = w\<lparr>calls := calls w @ requests e symb side q n, slept := slept w + (n - 1)\<rparr>"
    by blast+
  with u rp show ?thesis by blast
next
  fix n ord
  assume u: "unfilled (reports e symb side q) n" and rp: "reports e symb side q n = Inr ord"
    and st: "status ord = ''FILLED''"
  have "Some (acct', r, w') =
          Some (flipped d side, Inr (),
                 (trade_log e symb side (price_paid e (fills ord)) q
                    (w\<lparr>calls := calls w @ requests e symb side q n, slept := slept w + n\<rparr>))
                   \<lparr>account_file := Some (json_dumps (flipped d side))\<rparr>)"
    unfolding assms [symmetric] by (rule do_trade_filled [OF u rp st])
  then have "acct' = flipped d side" and "r = Inr ()"
    and "w' = (trade_log e symb side (price_paid e (fills ord)) q
                    (w\<lparr>calls := calls w @ requests e symb side q n, slept := slept w + n\<rparr>))
                   \<lparr>account_file := Some (json_dumps (flipped d side))\<rparr>"
    by blast+
  with u rp st show ?thesis by blast
qed


lemma trade_log_keeps:
  "account_file (trade_log e symb side p q w) = account_file w"
  "calls (trade_log e symb side p q w) = calls w"
  "slept (trade_log e symb side p q w) = slept w"
  by (simp_all add: trade_log_def log_msg_def Let_def)





lemma fills_later_reports:
  "unfilled (reports env_fills_later symb side q) (Suc (Suc 0))"
  "reports env_fills_later symb side q (Suc (Suc 0)) = Inr filled_order"
  "status filled_order = ''FILLED''"
  by (simp_all add: reports_def answer_of_def env_fills_later_def new_order_def filled_order_def)

lemma lookup_fails_reports:
  "unfilled (reports env_lookup_fails symb side q) (Suc 0)"
  "reports env_lookup_fails symb side q (Suc 0) = Inl (BinanceAPIException ''timeout'')"
  by (simp_all add: reports_def answer_of_def env_lookup_fails_def new_order_def)


section \<open>The account flag and the account file\<close>

text \<open>
  C3, as the specification states it: \<open>account.is_buying\<close> toggles only after the
  fill is confirmed, never on a failed or unconfirmed order.  The source assigns
  \<open>account["is_buying"]\<close> right after the submission (lines 203 and 210), before the
  polling loop.  Here the order is accepted with status \<open>NEW\<close>, the first status
  look-up raises, and \<open>do_trade\<close> ends with that exception: the account object that
  the caller holds has \<open>is_buying\<close> changed from true to false although no fill was
  ever confirmed.
\<close>

theorem toggle_counterexample:
  "status new_order \<noteq> ''FILLED'' \<and>
   do_trade env_lookup_fails fresh_account asset ''buy'' (1 / 1000) world0 =
     Some (JObj [(''is_buying'', JBool False), (''assets'', JObj [])],
           Inl (BinanceAPIException ''timeout''),
           world0\<lparr>calls := [Order_market_buy asset (1 / 1000), Get_order asset 7]\<rparr>)"
proof -
  have u: "unfilled (reports env_lookup_fails asset ''buy'' (1 / 1000)) (Suc 0)"
    by (simp add: reports_def answer_of_def env_lookup_fails_def new_order_def)
  have r: "reports env_lookup_fails asset ''buy'' (1 / 1000) (Suc 0) = Inl (BinanceAPIException ''timeout'')"
    by (simp add: reports_def answer_of_def env_lookup_fails_def)
  have c: "calls world0 = []" and sl: "slept world0 = 0"
    by (simp_all add: world0_def)
  have rq: "requests env_lookup_fails asset ''buy'' (1 / 1000) (Suc 0) =
              [Order_market_buy asset (1 / 1000), Get_order asset 7]"
    by (simp add: requests_def call_of_def answer_of_def env_lookup_fails_def new_order_def)
  have fl: "flipped [(''is_buying'', JBool True), (''assets'', JObj [])] ''buy'' =
              JObj [(''is_buying'', JBool False), (''assets'', JObj [])]"
    by (simp add: flipped_def)
  have st: "status new_order \<noteq> ''FILLED''"
    by (simp add: new_order_def)
  show ?thesis
    using do_trade_failed [OF u r, of "[(''is_buying'', JBool True), (''assets'', JObj [])]" world0] st
    unfolding rq fl fresh_account_def c
    by simp
qed


text \<open>
  C3, amended: for every call of \<open>do_trade\<close> as the main loop makes it (side
  \<open>buy\<close> when \<open>is_buying\<close> is true, \<open>sell\<close> when it is false) that returns or
  raises: if it returns normally, the account has \<open>is_buying\<close> inverted, the account
  file holds exactly this account, and a report with status \<open>FILLED\<close> was seen after
  reports without it; if it raises, the account file is as it was before the call.  The
  account object in memory, however, has \<open>is_buying\<close> inverted as soon as the exchange
  has accepted the order, whatever happens afterwards.
\<close>

theorem account_toggle:
  assumes "map_of d ''is_buying'' = Some (JBool b)"
    and "side = (if b then ''buy'' else ''sell'')"
    and "do_trade e (JObj d) symb side q w = Some (acct', r, w')"
  shows "(r = Inr () \<longrightarrow>
            getitem acct' ''is_buying'' = Inr (JBool (\<not> b)) \<and>
            account_file w' = Some (json_dumps acct') \<and>
            (\<exists>n ord. unfilled (reports e symb side q) n \<and> reports e symb side q n = Inr ord \<and>
                     status ord = ''FILLED''))
       \<and> (r \<noteq> Inr () \<longrightarrow> account_file w' = account_file w)
       \<and> ((\<exists>ord. answer_of e symb side q = Inr ord) \<longrightarrow>
            getitem acct' ''is_buying'' = Inr (JBool (\<not> b)))"
proof -
  have fl: "getitem (flipped d side) ''is_buying'' = Inr (JBool (\<not> b))"
    using assms(2) by (simp add: getitem_flipped)
  from do_trade_cases [OF assms(3)] show ?thesis
  proof (elim disjE exE conjE)
    fix n ex
    assume u: "unfilled (reports e symb side q) n" and rp: "reports e symb side q n = Inl ex"
      and r: "r = Inl ex" and a: "acct' = (if n = 0 then JObj d else flipped d side)"
      and w': "w' = w\<lparr>calls := calls w @ requests e symb side q n, slept := slept w + (n - 1)\<rparr>"
    have "n \<noteq> 0" if "answer_of e symb side q = Inr ord" for ord
      using that rp by (cases n) (auto simp: reports_def)
    with r a w' fl show ?thesis by auto
  next
    fix n ord
    assume u: "unfilled (reports e symb side q) n" and rp: "reports e symb side q n = Inr ord"
      and st: "status ord = ''FILLED''"
      and r: "r = Inr ()" and a: "acct' = flipped d side"
      and w': "w' = (trade_log e symb side (price_paid e (fills ord)) q
                    (w\<lparr>calls := calls w @ requests e symb side q n, slept := slept w + n\<rparr>))
                   \<lparr>account_file := Some (json_dumps (flipped d side))\<rparr>"
    have "account_file w' = Some (json_dumps acct')"
      unfolding w' a by simp
    with u rp st r a fl show ?thesis by blast
  qed
qed

theorem account_toggle_witness:
  "map_of [(''is_buying'', JBool True), (''assets'', JObj [])] ''is_buying'' = Some (JBool True) \<and>
   (\<exists>acct' w'. do_trade env_fills_later (JObj [(''is_buying'', JBool True), (''assets'', JObj [])])
                  asset ''buy'' (1 / 1000) world0 = Some (acct', Inr (), w') \<and>
      getitem acct' ''is_buying'' = Inr (JBool False) \<and>
      account_file w' = Some (json_dumps acct'))"
proof -
  let ?d = "[(''is_buying'', JBool True), (''assets'', JObj [])]"
  have m: "map_of ?d ''is_buying'' = Some (JBool True)" by simp
  have s: "''buy'' = (if True then ''buy'' else ''sell'')" by simp
  note run = do_trade_filled [OF fills_later_reports, where d = ?d and w = world0
      and symb = asset and side = "''buy''" and q = "1 / 1000"]
  then obtain acct' w' where r: "do_trade env_fills_later (JObj ?d) asset ''buy'' (1 / 1000) world0 =
      Some (acct', Inr (), w')"
    by blast
  from account_toggle [OF m s r]
  have "getitem acct' ''is_buying'' = Inr (JBool False)" and "account_file w' = Some (json_dumps acct')"
    by simp_all
  with m r show ?thesis by blast
qed

section \<open>Exceptions in \<open>do_trade\<close>\<close>

text \<open>
  C4: if the submission raises (\<open>n = 0\<close>), or the \<open>n\<close>-th status look-up raises
  after look-ups that returned unfilled orders, then \<open>do_trade\<close> ends with that very
  exception; the account file, the trade files and the log files are as before the call;
  and the requests sent are the submission and those \<open>n\<close> look-ups, nothing else: no
  second submission, no cancellation.
\<close>

theorem exception_propagates:
  assumes "unfilled (reports e symb side q) n"
    and "reports e symb side q n = Inl ex"
  shows "\<exists>acct' w'. do_trade e (JObj d) symb side q w = Some (acct', Inl ex, w') \<and>
           account_file w' = account_file w \<and> trade_files w' = trade_files w \<and>
           log_files w' = log_files w \<and>
           calls w' = calls w @ requests e symb side q n"
  using do_trade_failed [OF assms, of d w] by simp

theorem exception_propagates_witness:
  "\<exists>acct' w'. do_trade env_lookup_fails (JObj [(''is_buying'', JBool True), (''assets'', JObj [])])
                 asset ''buy'' (1 / 1000) world0 =
                 Some (acct', Inl (BinanceAPIException ''timeout''), w') \<and>
     account_file w' = account_file world0 \<and> trade_files w' = trade_files world0 \<and>
     log_files w' = log_files world0 \<and>
     calls w' = calls world0 @ requests env_lookup_fails asset ''buy'' (1 / 1000) (Suc 0)"
  by (rule exception_propagates [OF lookup_fails_reports])

section \<open>The price column of the trade file\<close>



section \<open>The unbounded wait\<close>



section \<open>Sides other than buy\<close>

lemma dict_set_other: "k' \<noteq> k \<Longrightarrow> map_of (dict_set d k v) k' = map_of d k'"
  by (induction d) auto

lemma getitem_flipped_other:
  "k \<noteq> ''is_buying'' \<Longrightarrow> getitem (flipped d side) k = getitem (JObj d) k"
  by (simp add: flipped_def dict_set_other)

text \<open>
  C10: for every side other than the exact string \<open>buy\<close>, a call of \<open>do_trade\<close>
  that ends has sent a market sell order followed only by status look-ups.  Once the
  exchange has accepted the order, \<open>account["is_buying"]\<close> reads \<open>True\<close> and every
  other entry of the account reads as before; if the exchange refuses the order the
  account is as before.  An exception that ends the call is one raised by the exchange,
  so the side is never rejected; and when the sell order is reported filled at once the
  call returns normally, with \<open>is_buying\<close> true in the account and in the account file.
\<close>

theorem other_side_sells:
  assumes "side \<noteq> ''buy''"
  shows "(do_trade e (JObj d) symb side q w = Some (acct', r, w') \<longrightarrow>
            (\<exists>look_ups. calls w' = calls w @ Order_market_sell symb q # look_ups \<and>
                (\<forall>c \<in> set look_ups. \<exists>oid. c = Get_order symb oid)) \<and>
            ((\<exists>ord. order_market_sell e symb q = Inr ord) \<longrightarrow>
                getitem acct' ''is_buying'' = Inr (JBool True) \<and>
                (\<forall>k. k \<noteq> ''is_buying'' \<longrightarrow> getitem acct' k = getitem (JObj d) k)) \<and>
            ((\<exists>ex. order_market_sell e symb q = Inl ex) \<longrightarrow> acct' = JObj d) \<and>
            (\<forall>ex. r = Inl ex \<longrightarrow>
                order_market_sell e symb q = Inl ex \<or>
                (\<exists>ord k. order_market_sell e symb q = Inr ord \<and>
                   get_order e symb (orderId ord) k = Inl ex)))
       \<and> ((\<exists>ord. order_market_sell e symb q = Inr ord \<and> status ord = ''FILLED'') \<longrightarrow>
            (\<exists>a' v'. do_trade e (JObj d) symb side q w = Some (a', Inr (), v') \<and>
                getitem a' ''is_buying'' = Inr (JBool True) \<and>
                account_file v' = Some (json_dumps a')))"
proof (intro conjI impI)
  assume run: "do_trade e (JObj d) symb side q w = Some (acct', r, w')"
  have rq: "requests e symb side q n =
      Order_market_sell symb q #
        (case order_market_sell e symb q of Inl ex \<Rightarrow> []
         | Inr ord \<Rightarrow> replicate n (Get_order symb (orderId ord)))" for n
    using assms by (simp add: requests_def call_of_def answer_of_def)
  have fl: "getitem (flipped d side) ''is_buying'' = Inr (JBool True)"
    using assms by (simp add: getitem_flipped)
  have ans: "answer_of e symb side q = order_market_sell e symb q"
    using assms by (simp add: answer_of_def)
  from do_trade_cases [OF run]
  consider
    (failed) n ex where "unfilled (reports e symb side q) n" "reports e symb side q n = Inl ex"
      "r = Inl ex" "acct' = (if n = 0 then JObj d else flipped d side)"
      "w' = w\<lparr>calls := calls w @ requests e symb side q n, slept := slept w + (n - 1)\<rparr>"
  | (filled) n ord where "unfilled (reports e symb side q) n" "reports e symb side q n = Inr ord"
      "status ord = ''FILLED''" "r = Inr ()" "acct' = flipped d side"
      "w' = (trade_log e symb side (price_paid e (fills ord)) q
                    (w\<lparr>calls := calls w @ requests e symb side q n, slept := slept w + n\<rparr>))
                   \<lparr>account_file := Some (json_dumps (flipped d side))\<rparr>"
    by blast
  note cases = this
  have cs: "\<exists>n. calls w' = calls w @ requests e symb side q n"
    using cases by cases (auto simp: trade_log_keeps)
  then obtain n where "calls w' = calls w @ requests e symb side q n" by blast
  then have "calls w' = calls w @ Order_market_sell symb q #
        (case order_market_sell e symb q of Inl ex \<Rightarrow> []
         | Inr ord \<Rightarrow> replicate n (Get_order symb (orderId ord)))"
    by (simp add: rq)
  moreover have "\<forall>c \<in> set (case order_market_sell e symb q of Inl ex \<Rightarrow> []
         | Inr ord \<Rightarrow> replicate n (Get_order symb (orderId ord))). \<exists>oid. c = Get_order symb oid"
    by (auto split: sum.splits)
  ultimately show "\<exists>look_ups. calls w' = calls w @ Order_market_sell symb q # look_ups \<and>
                (\<forall>c \<in> set look_ups. \<exists>oid. c = Get_order symb oid)"
    by blast
  have accepted: "acct' = flipped d side" if "\<exists>ord. order_market_sell e symb q = Inr ord"
    using cases
  proof cases
    case (failed n ex)
    from that failed(2) ans have "n \<noteq> 0"
      by (cases n) (auto simp: reports_def)
    with failed(4) show ?thesis by simp
  next
    case (filled n ord)
    then show ?thesis by simp
  qed
  show "getitem acct' ''is_buying'' = Inr (JBool True)"
    if "\<exists>ord. order_market_sell e symb q = Inr ord"
    using accepted [OF that] fl by simp
  show "\<forall>k. k \<noteq> ''is_buying'' \<longrightarrow> getitem acct' k = getitem (JObj d) k"
    if "\<exists>ord. order_market_sell e symb q = Inr ord"
    using accepted [OF that] by (simp add: getitem_flipped_other)
  show "acct' = JObj d" if "\<exists>ex. order_market_sell e symb q = Inl ex"
    using cases
  proof cases
    case (failed n ex)
    from that obtain ex' where "answer_of e symb side q = Inl ex'"
      using ans by auto
    then have "n = 0"
      using unfilled_nth [OF failed(1), of 0] reports_Inl [of e symb side q ex' 0]
      by (cases n) auto
    with failed(4) show ?thesis by simp
  next
    case (filled n ord)
    from that obtain ex' where "answer_of e symb side q = Inl ex'"
      using ans by auto
    with filled(2) show ?thesis by (simp add: reports_Inl)
  qed
  show "\<forall>ex. r = Inl ex \<longrightarrow>
                order_market_sell e symb q = Inl ex \<or>
                (\<exists>ord k. order_market_sell e symb q = Inr ord \<and>
                   get_order e symb (orderId ord) k = Inl ex)"
    using cases
  proof cases
    case (failed n ex)
    from failed(2) ans have "order_market_sell e symb q = Inl ex \<or>
                (\<exists>ord k. order_market_sell e symb q = Inr ord \<and>
                   get_order e symb (orderId ord) k = Inl ex)"
      by (cases n; cases "order_market_sell e symb q") (auto simp: reports_def)
    with failed(3) show ?thesis by simp
  next
    case (filled n ord)
    then show ?thesis by simp
  qed
next
  assume "\<exists>ord. order_market_sell e symb q = Inr ord \<and> status ord = ''FILLED''"
  then obtain ord where o: "order_market_sell e symb q = Inr ord" and st: "status ord = ''FILLED''"
    by blast
  have rp: "reports e symb side q 0 = Inr ord"
    using assms o by (simp add: reports_def answer_of_def)
  have u: "unfilled (reports e symb side q) 0" by simp
  have fl: "getitem (flipped d side) ''is_buying'' = Inr (JBool True)"
    using assms by (simp add: getitem_flipped)
  note run = do_trade_filled [OF u rp st, of d w]
  show "\<exists>a' v'. do_trade e (JObj d) symb side q w = Some (a', Inr (), v') \<and>
                getitem a' ''is_buying'' = Inr (JBool True) \<and>
                account_file v' = Some (json_dumps a')"
    by (intro exI conjI, rule run, rule fl) simp
qed

theorem other_side_sells_witness:
  "''hold'' \<noteq> ''buy'' \<and>
   (\<exists>w' look_ups.
      do_trade env_fills_later (JObj [(''is_buying'', JBool False), (''assets'', JObj [])])
        asset ''hold'' (1 / 1000) world0 =
        Some (JObj [(''is_buying'', JBool True), (''assets'', JObj [])], Inr (), w') \<and>
      calls w' = calls world0 @ Order_market_sell asset (1 / 1000) # look_ups \<and>
      getitem (JObj [(''is_buying'', JBool True), (''assets'', JObj [])]) ''is_buying'' =
        Inr (JBool True))"
proof -
  let ?d = "[(''is_buying'', JBool False), (''assets'', JObj [])]"
  let ?a = "JObj [(''is_buying'', JBool True), (''assets'', JObj [])]"
  have h: "''hold'' \<noteq> ''buy''" by simp
  have a: "flipped ?d ''hold'' = ?a"
    by (simp add: flipped_def)
  note run = do_trade_filled [OF fills_later_reports, where d = ?d and w = world0
      and symb = asset and side = "''hold''" and q = "1 / 1000", unfolded a]
  then obtain w' where r: "do_trade env_fills_later (JObj ?d) asset ''hold'' (1 / 1000) world0 =
      Some (?a, Inr (), w')"
    by blast
  have o: "\<exists>ord. order_market_sell env_fills_later asset (1 / 1000) = Inr ord"
    by (simp add: env_fills_later_def)
  from other_side_sells [OF h, where e = env_fills_later and d = ?d and symb = asset
      and q = "1 / 1000" and w = world0 and acct' = ?a and r = "Inr ()" and w' = w'] r o
  have "\<exists>look_ups. calls w' = calls world0 @ Order_market_sell asset (1 / 1000) # look_ups"
    and "getitem ?a ''is_buying'' = Inr (JBool True)"
    by blast+
  with h r show ?thesis by blast
qed

section \<open>A pass of the main loop\<close>

lemma rsi_latest_short: "length ps < 15 \<Longrightarrow> rsi_latest ps = NaN"
  by (simp add: rsi_latest_def period_def)

lemma ta_rsi_last: "ps \<noteq> [] \<Longrightarrow> last (ta_rsi ps) = rsi_latest ps"
  by (cases ps rule: rev_cases) (simp_all add: ta_rsi_def)

lemma ta_rsi_Nil: "ta_rsi ps = [] \<longleftrightarrow> ps = []"
  by (cases ps) (simp_all add: ta_rsi_def)

lemma get_rsi_eq:
  "get_rsi e symb w =
     (case get_historical_klines e symb of
        Inl ex \<Rightarrow> Inl ex
      | Inr ks \<Rightarrow> if ks = [] then Inl (IndexError ''single positional indexer is out-of-bounds'')
                  else Inr (rsi_latest (map snd ks)),
      w\<lparr>calls := calls w @ [Get_historical_klines symb]\<rparr>)"
proof (cases "get_historical_klines e symb")
  case (Inl ex)
  then show ?thesis by (simp add: get_rsi_def fetch_klines_def)
next
  case (Inr ks)
  show ?thesis
  proof (cases "ks = []")
    case True
    with Inr show ?thesis by (simp add: get_rsi_def fetch_klines_def ta_rsi_def)
  next
    case False
    then have ne: "map snd ks \<noteq> []" by simp
    with ta_rsi_Nil [of "map snd ks"] obtain r rs where c: "ta_rsi (map snd ks) = r # rs"
      by (cases "ta_rsi (map snd ks)") auto
    have "last (r # rs) = rsi_latest (map snd ks)"
      using ta_rsi_last [OF ne] c by simp
    with Inr False c show ?thesis by (simp add: get_rsi_def fetch_klines_def)
  qed
qed

lemma load_account_calls:
  "calls (snd (load_account w)) = calls w" "slept (snd (load_account w)) = slept w"
  by (simp_all add: load_account_def create_account_def save_account_def Let_def split: option.splits)

lemma getitem_Inr: "getitem a k = Inr v \<Longrightarrow> \<exists>d. a = JObj d"
  by (cases a) simp_all

lemma signal_NaN: "signal b NaN prev = None" "signal b cur NaN = None"
  by (simp_all add: signal_def)

text \<open>The \<open>try\<close> body with the two readers unfolded.\<close>

lemma try_block_eq:
  "try_block e st =
     (case fst (load_account (wld st)) of
        Inl ex \<Rightarrow> Some (Inl ex, st\<lparr>wld := snd (load_account (wld st))\<rparr>)
      | Inr acct \<Rightarrow>
          (let w1 = snd (load_account (wld st));
               w2 = w1\<lparr>calls := calls w1 @ [Get_historical_klines asset]\<rparr>;
               st1 = st\<lparr>wld := w2, account := Some acct, old_rsi := rsi st\<rparr>
           in case fst (get_rsi e asset w1) of
                Inl ex \<Rightarrow> Some (Inl ex, st1)
              | Inr r \<Rightarrow>
                  (case getitem acct ''is_buying'' of
                     Inl ex \<Rightarrow> Some (Inl ex, st1\<lparr>rsi := r\<rparr>)
                   | Inr v \<Rightarrow>
                       (case signal (truthy v) r (rsi st) of
                          None \<Rightarrow> Some (Inr (), st1\<lparr>rsi := r, wld := w2\<lparr>slept := slept w2 + 3\<rparr>\<rparr>)
                        | Some side \<Rightarrow>
                            (case do_trade e acct asset side (1 / 1000) w2 of
                               None \<Rightarrow> None
                             | Some (acct', Inl ex, w3) \<Rightarrow>
                                 Some (Inl ex, st1\<lparr>rsi := r, wld := w3, account := Some acct'\<rparr>)
                             | Some (acct', Inr u, w3) \<Rightarrow>
                                 Some (Inr (), st1\<lparr>rsi := r, wld := w3\<lparr>slept := slept w3 + 3\<rparr>,
                                                   account := Some acct'\<rparr>))))))"
  by (simp add: try_block_def get_rsi_eq Let_def
      split: prod.splits sum.splits option.splits)


lemma load_account_files:
  "trade_files (snd (load_account w)) = trade_files w"
  "log_files (snd (load_account w)) = log_files w"
  by (simp_all add: load_account_def create_account_def save_account_def Let_def split: option.splits)

lemma look_ups_append: "look_ups (a @ b) = look_ups a + look_ups b"
  by (simp add: look_ups_def)

lemma look_ups_requests:
  "look_ups (requests e symb side q n) =
     (case answer_of e symb side q of Inl ex \<Rightarrow> 0 | Inr ord \<Rightarrow> n)"
  by (simp add: look_ups_def requests_def call_of_def split: sum.splits)

lemma orders_requests:
  "filter is_order (requests e symb side q n) = [call_of side symb q]"
  by (simp add: requests_def call_of_def split: sum.splits)

lemma do_trade_slept:
  assumes "do_trade e (JObj d) symb side q w = Some (a', r, w')"
  shows "slept w' = slept w + (look_ups (calls w') - look_ups (calls w) - (case r of Inl ex \<Rightarrow> 1 | Inr u \<Rightarrow> 0))"
  using do_trade_cases [OF assms]
proof (elim disjE exE conjE)
  fix n ex
  assume u: "unfilled (reports e symb side q) n"
    and rp: "reports e symb side q n = Inl ex" and r: "r = Inl ex"
    and w': "w' = w\<lparr>calls := calls w @ requests e symb side q n, slept := slept w + (n - 1)\<rparr>"
  have "look_ups (requests e symb side q n) = n"
  proof (cases "answer_of e symb side q")
    case (Inl ex')
    have "n = 0"
      using unfilled_nth [OF u, of 0] reports_Inl [OF Inl, of 0] by (cases n) auto
    with Inl show ?thesis by (simp add: look_ups_requests)
  next
    case (Inr ord)
    then show ?thesis by (simp add: look_ups_requests)
  qed
  then show ?thesis
    unfolding w' r by (simp add: look_ups_append)
next
  fix n ord
  assume rp: "reports e symb side q n = Inr ord" and r: "r = Inr ()"
    and w': "w' = (trade_log e symb side (price_paid e (fills ord)) q
                    (w\<lparr>calls := calls w @ requests e symb side q n, slept := slept w + n\<rparr>))
                   \<lparr>account_file := Some (json_dumps (flipped d side))\<rparr>"
  have "look_ups (requests e symb side q n) = n"
    using rp by (auto simp: look_ups_requests reports_def split: sum.splits)
  then show ?thesis
    unfolding w' r by (simp add: look_ups_append trade_log_keeps)
qed

lemma try_block_slept:
  assumes "try_block e st = Some (r, st')"
  shows "slept (wld st') =
           slept (wld st) + (look_ups (calls (wld st')) - look_ups (calls (wld st))
              - (case r of Inl ex \<Rightarrow> 1 | Inr u \<Rightarrow> 0)) + (case r of Inl ex \<Rightarrow> 0 | Inr u \<Rightarrow> 3)"
proof (cases "fst (load_account (wld st))")
  case (Inl ex)
  with assms show ?thesis
    by (auto simp: try_block_eq load_account_calls)
next
  case acct: (Inr acct)
  let ?w1 = "snd (load_account (wld st))"
  let ?w2 = "?w1\<lparr>calls := calls ?w1 @ [Get_historical_klines asset]\<rparr>"
  have k: "look_ups (calls ?w2) = look_ups (calls (wld st))" "slept ?w2 = slept (wld st)"
    by (simp_all add: look_ups_def load_account_calls)
  show ?thesis
  proof (cases "fst (get_rsi e asset ?w1)")
    case (Inl ex)
    with assms acct k show ?thesis
      by (auto simp: try_block_eq Let_def)
  next
    case rd: (Inr rd)
    show ?thesis
    proof (cases "getitem acct ''is_buying''")
      case (Inl ex)
      with assms acct rd k show ?thesis
        by (auto simp: try_block_eq Let_def)
    next
      case v: (Inr v)
      from getitem_Inr [OF v] obtain d where d: "acct = JObj d" by blast
      show ?thesis
      proof (cases "signal (truthy v) rd (rsi st)")
        case None
        with assms acct rd v k show ?thesis
          by (auto simp: try_block_eq Let_def)
      next
        case (Some side)
        from assms acct rd v Some obtain a' r' w3 where
          run: "do_trade e (JObj d) asset side (1 / 1000) ?w2 = Some (a', r', w3)"
          unfolding d by (auto simp: try_block_eq Let_def split: option.splits)
        note sl = do_trade_slept [OF run]
        show ?thesis
        proof (cases r')
          case (Inl ex')
          with assms acct rd v Some run d have "r = Inl ex'" and "wld st' = w3"
            by (auto simp: try_block_eq Let_def)
          with sl k Inl show ?thesis by simp
        next
          case (Inr u')
          with assms acct rd v Some run d have "r = Inr ()" and "wld st' = w3\<lparr>slept := slept w3 + 3\<rparr>"
            by (auto simp: try_block_eq Let_def)
          with sl k Inr show ?thesis by simp
        qed
      qed
    qed
  qed
qed


lemma loads_fresh: "json_loads (json_dumps fresh_account) = Inr fresh_account"
  unfolding fresh_account_def by code_simp

lemma load_world0: "load_account world0 = (Inr fresh_account, world0)"
  by (simp add: load_account_def world0_def loads_fresh)

lemma try_block_no_data:
  "try_block env_lookup_fails state0 =
     Some (Inl (BinanceAPIException ''no data''),
           state0\<lparr>wld := world0\<lparr>calls := [Get_historical_klines asset]\<rparr>,
                  account := Some fresh_account\<rparr>)"
proof -
  have g: "fst (get_rsi env_lookup_fails asset world0) = Inl (BinanceAPIException ''no data'')"
    by (simp add: get_rsi_eq env_lookup_fails_def)
  have c: "calls world0 = []"
    by (simp add: world0_def)
  have w: "wld state0 = world0" and r: "rsi state0 = Val 50" "old_rsi state0 = Val 50"
    by (simp_all add: state0_def)
  show ?thesis
    unfolding try_block_eq w load_world0 fst_conv snd_conv
    by (simp add: g c r)
qed

section \<open>Undefined readings\<close>

text \<open>
  C7, as the specification states it: with fewer than 15 samples \<open>get_rsi\<close> yields
  NaN.  With no sample at all, which is fewer than 15, the column of readings is empty and
  \<open>.iloc[-1]\<close> (source line 109) raises IndexError: \<open>get_rsi\<close> yields no value.
\<close>

theorem undefined_reading_counterexample:
  "length ([] :: (int \<times> real) list) < 15 \<and>
   get_historical_klines env_fills_later asset = Inr [] \<and>
   fst (get_rsi env_fills_later asset world0) =
     Inl (IndexError ''single positional indexer is out-of-bounds'')"
  by (simp add: get_rsi_eq env_fills_later_def)

text \<open>
  C7, amended: \<open>period + 1\<close> is 15.  With at least one and fewer than 15 samples
  \<open>get_rsi\<close> yields NaN; with no sample it raises IndexError.  An undefined current or
  previous reading fires no signal, whatever the account mode.  In a pass whose previous
  reading is NaN, or whose current reading is NaN, or that fetched fewer than 15 samples,
  the \<open>try\<close> body ends without having sent any order, and leaves the account file as it
  was read and the trade files untouched.
\<close>

theorem undefined_reading_no_trade:
  "period + 1 = 15 \<and>
   (get_historical_klines e symb = Inr ks \<and> ks \<noteq> [] \<and> length ks < period + 1 \<longrightarrow>
      fst (get_rsi e symb w) = Inr NaN) \<and>
   (get_historical_klines e symb = Inr [] \<longrightarrow>
      fst (get_rsi e symb w) = Inl (IndexError ''single positional indexer is out-of-bounds'')) \<and>
   signal b NaN prev = None \<and> signal b cur NaN = None \<and>
   (rsi st = NaN \<or> fst (get_rsi e asset (snd (load_account (wld st)))) = Inr NaN \<or>
    (\<exists>ks. get_historical_klines e asset = Inr ks \<and> length ks < period + 1) \<longrightarrow>
      (\<exists>r st'. try_block e st = Some (r, st') \<and>
         filter is_order (calls (wld st')) = filter is_order (calls (wld st)) \<and>
         account_file (wld st') = account_file (snd (load_account (wld st))) \<and>
         trade_files (wld st') = trade_files (wld st)))"
proof (intro conjI impI)
  show "period + 1 = 15" by (simp add: period_def)
next
  assume "get_historical_klines e symb = Inr ks \<and> ks \<noteq> [] \<and> length ks < period + 1"
  then show "fst (get_rsi e symb w) = Inr NaN"
    by (simp add: get_rsi_eq rsi_latest_short period_def)
next
  assume "get_historical_klines e symb = Inr []"
  then show "fst (get_rsi e symb w) = Inl (IndexError ''single positional indexer is out-of-bounds'')"
    by (simp add: get_rsi_eq)
next
  show "signal b NaN prev = None" "signal b cur NaN = None"
    by (rule signal_NaN)+
next
  let ?w1 = "snd (load_account (wld st))"
  assume h: "rsi st = NaN \<or> fst (get_rsi e asset ?w1) = Inr NaN \<or>
    (\<exists>ks. get_historical_klines e asset = Inr ks \<and> length ks < period + 1)"
  have quiet: "signal c rd (rsi st) = None" if "fst (get_rsi e asset ?w1) = Inr rd" for c rd
    using h
  proof (elim disjE exE conjE)
    assume "rsi st = NaN"
    then show ?thesis by (simp add: signal_NaN)
  next
    assume "fst (get_rsi e asset ?w1) = Inr NaN"
    with that show ?thesis by (simp add: signal_NaN)
  next
    fix ks
    assume "get_historical_klines e asset = Inr ks" "length ks < period + 1"
    with that have "rd = NaN"
      by (simp add: get_rsi_eq rsi_latest_short period_def split: if_splits)
    then show ?thesis by (simp add: signal_NaN)
  qed
  show "\<exists>r st'. try_block e st = Some (r, st') \<and>
         filter is_order (calls (wld st')) = filter is_order (calls (wld st)) \<and>
         account_file (wld st') = account_file ?w1 \<and>
         trade_files (wld st') = trade_files (wld st)"
  proof (cases "fst (load_account (wld st))")
    case (Inl ex)
    then show ?thesis
      by (simp add: try_block_eq load_account_calls load_account_files)
  next
    case acct: (Inr acct)
    show ?thesis
    proof (cases "fst (get_rsi e asset ?w1)")
      case (Inl ex)
      with acct show ?thesis
        by (simp add: try_block_eq Let_def load_account_calls load_account_files)
    next
      case rd: (Inr rd)
      show ?thesis
      proof (cases "getitem acct ''is_buying''")
        case (Inl ex)
        with acct rd show ?thesis
          by (simp add: try_block_eq Let_def load_account_calls load_account_files)
      next
        case (Inr v)
        with acct rd quiet [OF rd, of "truthy v"] show ?thesis
          by (simp add: try_block_eq Let_def load_account_calls load_account_files)
      qed
    qed
  qed
qed


theorem undefined_reading_no_trade_witness:
  "fst (get_rsi env_short_history asset world0) = Inr NaN \<and>
   fst (get_rsi env_fills_later asset world0) =
     Inl (IndexError ''single positional indexer is out-of-bounds'') \<and>
   (\<exists>r st'. try_block env_short_history state0 = Some (r, st') \<and>
      filter is_order (calls (wld st')) = filter is_order (calls (wld state0)))"
proof -
  let ?ks = "[(0, 100), (60000, 98), (120000, 96)] :: (int \<times> real) list"
  have k: "get_historical_klines env_short_history asset = Inr ?ks"
    by (simp add: env_short_history_def)
  have l: "?ks \<noteq> [] \<and> length ?ks < period + 1"
    by (simp add: period_def)
  have z: "get_historical_klines env_fills_later asset = Inr []"
    by (simp add: env_fills_later_def)
  note inst = undefined_reading_no_trade [where e = env_short_history and symb = asset
      and ks = ?ks and w = world0 and st = state0]
  note inst0 = undefined_reading_no_trade [where e = env_fills_later and symb = asset
      and w = world0]
  from inst k l have "fst (get_rsi env_short_history asset world0) = Inr NaN"
    by blast
  moreover from inst0 z have "fst (get_rsi env_fills_later asset world0) =
     Inl (IndexError ''single positional indexer is out-of-bounds'')"
    by blast
  moreover from inst k l have "\<exists>r st'. try_block env_short_history state0 = Some (r, st') \<and>
      filter is_order (calls (wld st')) = filter is_order (calls (wld state0))"
    by blast
  ultimately show ?thesis by blast
qed

section \<open>Exceptions in a pass\<close>

text \<open>
  C8, as the specification states it: after an exception the loop continues after the
  normal 3-second sleep.  The sleep is the last statement inside the \<open>try\<close> body
  (source line 257), so an exception skips it.  Here fetching the candlesticks raises:
  the pass logs the error and the next pass starts from a state in which no time has been
  slept.
\<close>

theorem no_sleep_counterexample:
  "loop_body env_lookup_fails state0 =
     Some (state0\<lparr>wld := log_msg env_lookup_fails (Text ''ERRORno data'')
                           (world0\<lparr>calls := [Get_historical_klines asset]\<rparr>),
                  account := Some fresh_account\<rparr>) \<and>
   slept (log_msg env_lookup_fails (Text ''ERRORno data'')
            (world0\<lparr>calls := [Get_historical_klines asset]\<rparr>)) = slept (wld state0)"
  unfolding loop_body_def try_block_no_data by (simp add: log_msg_def state0_def)

text \<open>
  C8, amended: when the \<open>try\<close> body of a pass raises an exception, the pass ends in
  a state from which the loop goes on; the last line of the day's log is
  \<open>"ERROR" + str(e)\<close> at the time of the pass; and the time slept in the pass is only
  the seconds between status look-ups, without the 3-second sleep.  A pass without
  exception sleeps those seconds and 3 more.
\<close>

theorem error_logged_no_sleep:
  "(try_block e st = Some (Inl ex, st') \<longrightarrow>
      (\<exists>st''. loop_body e st = Some st'' \<and>
         (\<exists>ls. log_files (wld st'') (today e) =
                  Some (ls @ [(clock e, Text (''ERROR'' @ str_exn ex))])) \<and>
         slept (wld st'') =
           slept (wld st) + (look_ups (calls (wld st'')) - look_ups (calls (wld st)) - 1) \<and>
         (\<forall>es k. es 0 = e \<longrightarrow> run es (Suc k) st = run (\<lambda>i. es (Suc i)) k st''))) \<and>
   (try_block e st = Some (Inr (), st') \<longrightarrow>
      loop_body e st = Some st' \<and>
      slept (wld st') =
        slept (wld st) + (look_ups (calls (wld st')) - look_ups (calls (wld st))) + 3)"
proof (intro conjI impI)
  assume t: "try_block e st = Some (Inl ex, st')"
  let ?st = "st'\<lparr>wld := log_msg e (Text (''ERROR'' @ str_exn ex)) (wld st')\<rparr>"
  have lb: "loop_body e st = Some ?st"
    by (simp add: loop_body_def t)
  have lg: "\<exists>ls. log_files (wld ?st) (today e) =
                  Some (ls @ [(clock e, Text (''ERROR'' @ str_exn ex))])"
    by (simp add: log_msg_def)
  have sl: "slept (wld ?st) =
           slept (wld st) + (look_ups (calls (wld ?st)) - look_ups (calls (wld st)) - 1)"
    using try_block_slept [OF t] by (simp add: log_msg_def)
  have rn: "\<forall>es k. es 0 = e \<longrightarrow> run es (Suc k) st = run (\<lambda>i. es (Suc i)) k ?st"
    by (simp add: lb)
  from lb lg sl rn show "\<exists>st''. loop_body e st = Some st'' \<and>
         (\<exists>ls. log_files (wld st'') (today e) =
                  Some (ls @ [(clock e, Text (''ERROR'' @ str_exn ex))])) \<and>
         slept (wld st'') =
           slept (wld st) + (look_ups (calls (wld st'')) - look_ups (calls (wld st)) - 1) \<and>
         (\<forall>es k. es 0 = e \<longrightarrow> run es (Suc k) st = run (\<lambda>i. es (Suc i)) k st'')"
    by blast
next
  assume t: "try_block e st = Some (Inr (), st')"
  show "loop_body e st = Some st'"
    by (simp add: loop_body_def t)
  show "slept (wld st') =
        slept (wld st) + (look_ups (calls (wld st')) - look_ups (calls (wld st))) + 3"
    using try_block_slept [OF t] by simp
qed

theorem error_logged_no_sleep_witness:
  "\<exists>st''. loop_body env_lookup_fails state0 = Some st'' \<and>
      (\<exists>ls. log_files (wld st'') ''2024-01-01'' = Some (ls @ [(''12:00:00'', Text ''ERRORno data'')])) \<and>
      slept (wld st'') = slept (wld state0)"
proof -
  from error_logged_no_sleep [where e = env_lookup_fails and st = state0
      and ex = "BinanceAPIException ''no data''"] try_block_no_data
  obtain st'' where lb: "loop_body env_lookup_fails state0 = Some st''"
    and lg: "\<exists>ls. log_files (wld st'') (today env_lookup_fails) =
                  Some (ls @ [(clock env_lookup_fails, Text (''ERROR'' @ str_exn (BinanceAPIException ''no data'')))])"
    and sl: "slept (wld st'') =
           slept (wld state0) + (look_ups (calls (wld st'')) - look_ups (calls (wld state0)) - 1)"
    by blast
  have "wld st'' = log_msg env_lookup_fails (Text ''ERRORno data'')
                           (world0\<lparr>calls := [Get_historical_klines asset]\<rparr>)"
    using lb unfolding loop_body_def try_block_no_data by auto
  then have "look_ups (calls (wld st'')) = 0"
    by (simp add: log_msg_def look_ups_def)
  with sl have "slept (wld st'') = slept (wld state0)" by simp
  moreover from lg have "\<exists>ls. log_files (wld st'') ''2024-01-01'' =
      Some (ls @ [(''12:00:00'', Text ''ERRORno data'')])"
    by (simp add: env_lookup_fails_def)
  ultimately show ?thesis using lb by blast
qed


section \<open>The account file read and written back\<close>





















end
